theory Spec2Isabelle
  imports Main
begin

text \<open>
  A model of the video server: the identifier codec of \<open>utils/pathUtils.js\<close>, and of the
  main file the catalogue (\<open>listMedia\<close>, \<open>getMediaById\<close>, \<open>GET /media\<close>,
  \<open>GET /media/:id\<close>) and the handler of \<open>GET /stream/:id\<close> with its Range resolution.
  Functions of Node.js and of the packages the server calls (\<open>Buffer\<close>, \<open>path\<close>, \<open>fs\<close>,
  \<open>mime-types\<close>) are modelled on their documented behaviour, on POSIX paths; the media
  root \<open>MEDIA_DIR\<close>, the table of MIME types and the file system are parameters.
\<close>

section \<open>Strings and numbers\<close>

text \<open>
  A JavaScript string is modelled by the bytes of its UTF-8 encoding, as a HOL
  \<open>string\<close>. All the strings the server compares against (\<open>bytes=\<close>, \<open>/\<close>, \<open>.\<close>, the
  video extensions, the base64 alphabet) are ASCII, where a byte is a character.
\<close>

definition is_digit :: "char \<Rightarrow> bool" where
  "is_digit c = (c \<in> set ''0123456789'')"

definition digit_val :: "char \<Rightarrow> int" where
  "digit_val c = int (of_char c) - 48"

text \<open>
  \<open>parseInt(s, 10)\<close> on a non-empty run of decimal digits, the only strings the stream
  handler passes to it (a non-empty capture of \<open>\d*\<close>). JavaScript numbers are doubles,
  exact up to \<open>2^53\<close>; the model computes with unbounded integers, which gives the same
  comparisons against any file size below \<open>2^53\<close>.
\<close>

definition parseInt :: "string \<Rightarrow> int" where
  "parseInt s = foldl (\<lambda>a c. 10 * a + digit_val c) 0 s"

text \<open>The decimal form of a number, as a template literal \<open>`${n}`\<close> prints an integer.\<close>

fun show_nat :: "nat \<Rightarrow> string" where
  "show_nat n =
     (if n < 10 then [char_of (48 + n)]
      else show_nat (n div 10) @ [char_of (48 + n mod 10)])"

declare show_nat.simps [simp del]

definition show_int :: "int \<Rightarrow> string" where
  "show_int i = (if i < 0 then CHR ''-'' # show_nat (nat (- i)) else show_nat (nat i))"

section \<open>The identifier codec (\<open>utils/pathUtils.js\<close>)\<close>

subsection \<open>Base64, as \<open>Buffer\<close> writes and reads it\<close>

definition b64_alphabet :: string where
  "b64_alphabet = ''ABCDEFGHIJKLMNOPQRSTUVWXYZabcdefghijklmnopqrstuvwxyz0123456789+/''"

definition b64_char :: "nat \<Rightarrow> char" where
  "b64_char n = b64_alphabet ! n"

text \<open>\<open>buf.toString('base64')\<close>: three bytes give four characters, the rest is padded.\<close>

fun base64_encode :: "char list \<Rightarrow> string" where
  "base64_encode [] = []"
| "base64_encode [a] =
     (let x = of_char a :: nat in
      [b64_char (x div 4), b64_char ((x mod 4) * 16), CHR ''='', CHR ''=''])"
| "base64_encode [a, b] =
     (let x = of_char a :: nat; y = of_char b :: nat in
      [b64_char (x div 4), b64_char ((x mod 4) * 16 + y div 16),
       b64_char ((y mod 16) * 4), CHR ''=''])"
| "base64_encode (a # b # c # rest) =
     (let x = of_char a :: nat; y = of_char b :: nat; z = of_char c :: nat in
      [b64_char (x div 4), b64_char ((x mod 4) * 16 + y div 16),
       b64_char ((y mod 16) * 4 + z div 64), b64_char (z mod 64)] @ base64_encode rest)"

fun index_of :: "'a \<Rightarrow> 'a list \<Rightarrow> nat option" where
  "index_of x [] = None"
| "index_of x (y # ys) = (if x = y then Some 0 else map_option Suc (index_of x ys))"

text \<open>
  \<open>Buffer.from(s, 'base64')\<close> never fails: it reads the characters of the standard and of
  the URL-safe alphabet, skips every other character, and stops at the first \<open>=\<close>. A last
  group of two or three characters gives one or two bytes; a single left-over character
  gives none.
\<close>

definition unbase64 :: "char \<Rightarrow> nat option" where
  "unbase64 c =
     (if c = CHR ''-'' then Some 62 else if c = CHR ''_'' then Some 63
      else index_of c b64_alphabet)"

fun b64_sextets :: "string \<Rightarrow> nat list" where
  "b64_sextets [] = []"
| "b64_sextets (c # cs) =
     (if c = CHR ''='' then []
      else case unbase64 c of None \<Rightarrow> b64_sextets cs | Some v \<Rightarrow> v # b64_sextets cs)"

fun b64_bytes :: "nat list \<Rightarrow> char list" where
  "b64_bytes (a # b # c # d # rest) =
     [char_of (a * 4 + b div 16), char_of ((b mod 16) * 16 + c div 4),
      char_of ((c mod 4) * 64 + d)] @ b64_bytes rest"
| "b64_bytes [a, b, c] = [char_of (a * 4 + b div 16), char_of ((b mod 16) * 16 + c div 4)]"
| "b64_bytes [a, b] = [char_of (a * 4 + b div 16)]"
| "b64_bytes [a] = []"
| "b64_bytes [] = []"

definition base64_decode :: "string \<Rightarrow> char list" where
  "base64_decode s = b64_bytes (b64_sextets s)"

subsection \<open>UTF-8, as \<open>Buffer\<close> reads it\<close>

text \<open>
  \<open>buf.toString('utf8')\<close> decodes the bytes as the WHATWG decoder does: a byte that cannot
  start or continue a sequence ends the sequence read so far, which becomes U+FFFD (in
  UTF-8 the bytes EF BF BD), and is read again as the start of the next one. The state is
  the number of bytes still needed, the bounds of the next byte, and the bytes seen.
  \<open>Buffer.from(str, 'utf8')\<close> gives the bytes of the string: in this model, the string.
\<close>

definition replacement :: string where
  "replacement = [CHR 0xEF, CHR 0xBF, CHR 0xBD]"

definition utf8_lead :: "nat \<Rightarrow> (nat \<times> nat \<times> nat) option" where
  "utf8_lead n =
     (if 0xC2 \<le> n \<and> n \<le> 0xDF then Some (1, 0x80, 0xBF)
      else if n = 0xE0 then Some (2, 0xA0, 0xBF)
      else if n = 0xED then Some (2, 0x80, 0x9F)
      else if 0xE1 \<le> n \<and> n \<le> 0xEF then Some (2, 0x80, 0xBF)
      else if n = 0xF0 then Some (3, 0x90, 0xBF)
      else if n = 0xF4 then Some (3, 0x80, 0x8F)
      else if 0xF1 \<le> n \<and> n \<le> 0xF3 then Some (3, 0x80, 0xBF)
      else None)"

fun utf8_decode :: "nat \<Rightarrow> nat \<Rightarrow> nat \<Rightarrow> char list \<Rightarrow> char list \<Rightarrow> string" where
  "utf8_decode needed lo hi seen [] = (if needed = 0 then [] else replacement)"
| "utf8_decode needed lo hi seen (b # bs) =
     (if needed = 0 then
        (if (of_char b :: nat) < 0x80 then b # utf8_decode 0 0x80 0xBF [] bs
         else
           (case utf8_lead (of_char b) of
              None \<Rightarrow> replacement @ utf8_decode 0 0x80 0xBF [] bs
            | Some (k, l, h) \<Rightarrow> utf8_decode k l h [b] bs))
      else if lo \<le> (of_char b :: nat) \<and> (of_char b :: nat) \<le> hi then
        (if needed = 1 then seen @ [b] @ utf8_decode 0 0x80 0xBF [] bs
         else utf8_decode (needed - 1) 0x80 0xBF (seen @ [b]) bs)
      else replacement @ utf8_decode 0 0x80 0xBF [] (b # bs))"

definition utf8_toString :: "char list \<Rightarrow> string" where
  "utf8_toString bytes = utf8_decode 0 0x80 0xBF [] bytes"

text \<open>
  \<open>str.length\<close> counts UTF-16 code units: one for each character, two for a character
  outside the basic plane (four bytes in UTF-8, the first of them \<open>F0\<close> or above).
\<close>

definition js_length :: "string \<Rightarrow> nat" where
  "js_length s =
     length (filter (\<lambda>c. (of_char c :: nat) < 0x80 \<or> 0xC0 \<le> (of_char c :: nat)) s)
     + length (filter (\<lambda>c. 0xF0 \<le> (of_char c :: nat)) s)"

subsection \<open>\<open>toBase64Url\<close> and \<open>fromBase64Url\<close>\<close>

datatype exn = RangeError | StatError string

text \<open>\<open>str.replace(/c/g, d)\<close> for one character, and \<open>str.replace(/=+$/, '')\<close>.\<close>

definition replace_all :: "char \<Rightarrow> char \<Rightarrow> string \<Rightarrow> string" where
  "replace_all c d s = map (\<lambda>x. if x = c then d else x) s"

definition strip_padding :: "string \<Rightarrow> string" where
  "strip_padding s = rev (dropWhile (\<lambda>c. c = CHR ''='') (rev s))"

text \<open>\<open>str.repeat(n)\<close> throws a \<open>RangeError\<close> on a negative count.\<close>

definition js_repeat :: "string \<Rightarrow> int \<Rightarrow> exn + string" where
  "js_repeat s n = (if n < 0 then Inl RangeError else Inr (concat (replicate (nat n) s)))"

definition toBase64Url :: "string \<Rightarrow> string" where
  "toBase64Url str =
     strip_padding (replace_all CHR ''/'' CHR ''_'' (replace_all CHR ''+'' CHR ''-''
       (base64_encode str)))"

definition fromBase64Url :: "string \<Rightarrow> exn + string" where
  "fromBase64Url b64 =
     (case (if js_length b64 mod 4 = 0 then Inr []
            else js_repeat ''='' (4 - int (js_length b64 mod 4))) of
        Inl e \<Rightarrow> Inl e
      | Inr pad \<Rightarrow>
          (let base64 = replace_all CHR ''_'' CHR ''/'' (replace_all CHR ''-'' CHR ''+'' b64) @ pad
           in Inr (utf8_toString (base64_decode base64))))"

text \<open>
  The character \<open>toBase64Url\<close> writes for a six-bit value: the one of the alphabet, with
  \<open>+\<close> and \<open>/\<close> replaced.
\<close>

definition url_char :: "nat \<Rightarrow> char" where
  "url_char n =
     (\<lambda>x. if x = CHR ''/'' then CHR ''_'' else x)
       ((\<lambda>x. if x = CHR ''+'' then CHR ''-'' else x) (b64_char n))"

section \<open>Paths (\<open>path\<close> of Node.js, POSIX flavour)\<close>

text \<open>
  The server calls \<open>path.join\<close>, \<open>path.relative\<close> and \<open>path.extname\<close> of the Node.js
  library. They are modelled here on their documented behaviour for \<open>/\<close>-separated paths.
\<close>

fun split_slash :: "string \<Rightarrow> string list" where
  "split_slash [] = [[]]"
| "split_slash (c # cs) =
     (if c = CHR ''/'' then [] # split_slash cs
      else (case split_slash cs of [] \<Rightarrow> [[c]] | s # ss \<Rightarrow> (c # s) # ss))"

fun join_slash :: "string list \<Rightarrow> string" where
  "join_slash [] = []"
| "join_slash [s] = s"
| "join_slash (s # t # ss) = s @ CHR ''/'' # join_slash (t # ss)"

text \<open>
  The segments of a normalized path: empty segments and \<open>.\<close> are dropped; \<open>..\<close> removes the
  segment before it, and where there is none it is dropped (below the root of an
  absolute path) or kept (in a relative path, \<open>allowAboveRoot\<close>).
\<close>

fun normalize_segments :: "bool \<Rightarrow> string list \<Rightarrow> string list \<Rightarrow> string list" where
  "normalize_segments allowAboveRoot res [] = res"
| "normalize_segments allowAboveRoot res (seg # segs) =
     (if seg = [] \<or> seg = ''.'' then normalize_segments allowAboveRoot res segs
      else if seg = ''..'' then
        (if res \<noteq> [] \<and> last res \<noteq> ''..''
           then normalize_segments allowAboveRoot (butlast res) segs
         else if allowAboveRoot
           then normalize_segments allowAboveRoot (res @ [''..'']) segs
         else normalize_segments allowAboveRoot res segs)
      else normalize_segments allowAboveRoot (res @ [seg]) segs)"

definition normalize :: "string \<Rightarrow> string" where
  "normalize path =
     (if path = [] then ''.''
      else
        let isAbsolute = (hd path = CHR ''/'');
            trailingSeparator = (last path = CHR ''/'');
            p = join_slash (normalize_segments (\<not> isAbsolute) [] (split_slash path))
        in
        if p = [] then (if isAbsolute then ''/'' else if trailingSeparator then ''./'' else ''.'')
        else (if isAbsolute then ''/'' else []) @ p @ (if trailingSeparator then ''/'' else []))"

text \<open>\<open>path.join(a, b)\<close>: the non-empty arguments, joined by \<open>/\<close> and normalized.\<close>

definition path_join :: "string \<Rightarrow> string \<Rightarrow> string" where
  "path_join a b =
     (let joined = (if a = [] then b else if b = [] then a else a @ CHR ''/'' # b)
      in if joined = [] then ''.'' else normalize joined)"



text \<open>
  \<open>path.extname(path)\<close>: in the last segment of the path (trailing \<open>/\<close> apart), the text
  from the last \<open>.\<close> on; empty when there is no \<open>.\<close>, when the last \<open>.\<close> is the first
  character of the segment, and when the segment is \<open>..\<close>.
\<close>

definition basename_of :: "string \<Rightarrow> string" where
  "basename_of path =
     rev (takeWhile (\<lambda>c. c \<noteq> CHR ''/'') (dropWhile (\<lambda>c. c = CHR ''/'') (rev path)))"

definition extname :: "string \<Rightarrow> string" where
  "extname path =
     (let base = basename_of path;
          after = rev (takeWhile (\<lambda>c. c \<noteq> CHR ''.'') (rev base))
      in
      if CHR ''.'' \<notin> set base then []
      else if length after + 1 = length base then []
      else if base = ''..'' then []
      else CHR ''.'' # after)"

text \<open>
  \<open>str.toLowerCase()\<close> on the letters A to Z; the extensions it is compared with are ASCII.
\<close>

definition toLowerCase :: "string \<Rightarrow> string" where
  "toLowerCase s =
     map (\<lambda>c. if (65 :: nat) \<le> of_char c \<and> (of_char c :: nat) \<le> 90
               then char_of (of_char c + (32 :: nat)) else c) s"


text \<open>
  \<open>mime.lookup(path)\<close> of the \<open>mime-types\<close> package: the type its table gives for the
  lower-cased extension of \<open>'x.' + path\<close>, without the dot; \<open>false\<close> (here \<open>None\<close>) for an
  empty path, no extension or an unknown one. The table is a parameter.
\<close>

definition mime_lookup :: "(string \<Rightarrow> string option) \<Rightarrow> string \<Rightarrow> string option" where
  "mime_lookup types path =
     (if path = [] then None
      else
        let extension = drop 1 (toLowerCase (extname (''x.'' @ path)))
        in if extension = [] then None else types extension)"

definition mime_or_default :: "(string \<Rightarrow> string option) \<Rightarrow> string \<Rightarrow> string" where
  "mime_or_default types path =
     (case mime_lookup types path of None \<Rightarrow> ''application/octet-stream'' | Some t \<Rightarrow> t)"

section \<open>The file system\<close>

text \<open>
  A tree: a regular file with its bytes, a directory with the size \<open>stat\<close> reports for it,
  whether it can be listed (\<open>readdir\<close>), whether it can be traversed, and its entries by
  name, or another kind of node (a FIFO, a socket, a device) with its reported size. The
  tree does not change while a request is served, and it has no symbolic links.
\<close>

datatype fsnode =
    File "char list"
  | Dir nat bool bool "(string \<times> fsnode) list"
  | Special nat

record stats =
  stat_size :: nat
  stat_isFile :: bool

fun stat_of :: "fsnode \<Rightarrow> stats" where
  "stat_of (File bytes) = \<lparr>stat_size = length bytes, stat_isFile = True\<rparr>"
| "stat_of (Dir sz r x es) = \<lparr>stat_size = sz, stat_isFile = False\<rparr>"
| "stat_of (Special sz) = \<lparr>stat_size = sz, stat_isFile = False\<rparr>"

text \<open>
  Resolving an absolute path, as \<open>stat\<close> does: every directory on the way must allow
  traversal; a path with a trailing \<open>/\<close> names a directory. A path with a NUL byte is
  refused by Node.js before any system call. The paths the server passes are results of
  \<open>path.join\<close> on the resolved root: absolute, without \<open>.\<close> or \<open>..\<close> segments.
\<close>

fun walk :: "fsnode \<Rightarrow> string list \<Rightarrow> fsnode option" where
  "walk node [] = Some node"
| "walk (Dir sz r x es) (seg # segs) =
     (if \<not> x then None
      else case map_of es seg of None \<Rightarrow> None | Some child \<Rightarrow> walk child segs)"
| "walk (File bytes) (seg # segs) = None"
| "walk (Special sz) (seg # segs) = None"

fun is_Dir :: "fsnode \<Rightarrow> bool" where
  "is_Dir (Dir sz r x es) = True"
| "is_Dir node = False"

definition fs_lookup :: "fsnode \<Rightarrow> string \<Rightarrow> fsnode option" where
  "fs_lookup root path =
     (if path = [] \<or> hd path \<noteq> CHR ''/'' \<or> CHR 0x00 \<in> set path then None
      else
        (case walk root (filter (\<lambda>seg. seg \<noteq> []) (split_slash path)) of
           None \<Rightarrow> None
         | Some node \<Rightarrow> if last path = CHR ''/'' \<and> \<not> is_Dir node then None else Some node))"

text \<open>
  The calls to the file system that \<open>getMediaById\<close> and the stream handler make, in
  order, with their paths: \<open>stat\<close>, \<open>existsSync\<close> and \<open>createReadStream\<close>.
\<close>

datatype fs_access = Stat string | Exists string | Open string

section \<open>Responses\<close>

datatype error_message = ID_invalido | Archivo_no_encontrado

record media =
  media_id :: string
  media_name :: string
  media_path :: "string option"
  media_size :: nat
  media_mime :: string

datatype body =
    Empty
  | JsonError error_message
  | JsonMedia media
  | JsonList "media list"
  | Bytes "char list"
  | StreamError

record response =
  status :: nat
  headers :: "(string \<times> string) list"
  body :: body

section \<open>The stream handler: Range resolution and the response\<close>

text \<open>
  \<open>range.match(/bytes=(\d*)-(\d*)/)\<close>. The expression is not anchored: the match is the
  leftmost place of the header where \<open>bytes=\<close>, a longest run of digits, \<open>-\<close> and a
  longest run of digits stand. At one place a shorter first run cannot help (the
  character after it would be a digit, not \<open>-\<close>), so the match there is decided by the
  longest run. The result is the two captures.
\<close>

definition match_here :: "string \<Rightarrow> (string \<times> string) option" where
  "match_here s =
     (if take 6 s = ''bytes='' then
        (case dropWhile is_digit (drop 6 s) of
           [] \<Rightarrow> None
         | c # rest \<Rightarrow>
             if c = CHR ''-'' then Some (takeWhile is_digit (drop 6 s), takeWhile is_digit rest)
             else None)
      else None)"

fun range_match :: "string \<Rightarrow> (string \<times> string) option" where
  "range_match [] = match_here []"
| "range_match (c # cs) =
     (case match_here (c # cs) of
        Some m \<Rightarrow> Some m
      | None \<Rightarrow> range_match cs)"

definition unsatisfiable :: "nat \<Rightarrow> response" where
  "unsatisfiable fileSize =
     \<lparr>status = 416,
      headers = [(''Content-Range'', ''bytes */'' @ show_nat fileSize)],
      body = Empty\<rparr>"

text \<open>\<open>fs.createReadStream(absPath, {start, end})\<close> piped to the response.\<close>

fun createReadStream :: "fsnode \<Rightarrow> (nat \<times> nat) option \<Rightarrow> body" where
  "createReadStream (File bytes) None = Bytes bytes"
| "createReadStream (File bytes) (Some (start, end')) =
     Bytes (take (end' + 1 - start) (drop start bytes))"
| "createReadStream node w = StreamError"

definition partial_content :: "fsnode \<Rightarrow> nat \<Rightarrow> string \<Rightarrow> int \<Rightarrow> int \<Rightarrow> response" where
  "partial_content node fileSize mimeType start end' =
     (if start < 0 \<or> end' \<ge> int fileSize \<or> start > end' then unsatisfiable fileSize
      else
        let chunkSize = (end' - start) + 1 in
        \<lparr>status = 206,
         headers =
           [(''Content-Range'',
               ''bytes '' @ show_int start @ ''-'' @ show_int end' @ ''/'' @ show_nat fileSize),
            (''Accept-Ranges'', ''bytes''),
            (''Content-Length'', show_int chunkSize),
            (''Content-Type'', mimeType)],
         body = createReadStream node (Some (nat start, nat end'))\<rparr>)"

text \<open>
  Steps 3 to 6 of the handler of \<open>GET /stream/:id\<close>, once the file is found: \<open>range_header\<close> is
  \<open>req.headers.range\<close> (\<open>None\<close> when the request has no such header; \<open>!range\<close> also holds
  for the empty string), \<open>node\<close> is what stands at \<open>absPath\<close>.
\<close>

definition stream_range :: "fsnode \<Rightarrow> string \<Rightarrow> string option \<Rightarrow> response" where
  "stream_range node mimeType range_header =
     (let fileSize = stat_size (stat_of node) in
      case range_header of
        None \<Rightarrow>
          \<lparr>status = 200,
           headers =
             [(''Content-Type'', mimeType),
              (''Content-Length'', show_nat fileSize),
              (''Accept-Ranges'', ''bytes'')],
           body = createReadStream node None\<rparr>
      | Some r \<Rightarrow>
          if r = [] then
            \<lparr>status = 200,
             headers =
               [(''Content-Type'', mimeType),
                (''Content-Length'', show_nat fileSize),
                (''Accept-Ranges'', ''bytes'')],
             body = createReadStream node None\<rparr>
          else
            (case range_match r of
               None \<Rightarrow> unsatisfiable fileSize
             | Some (m1, m2) \<Rightarrow>
                 let start = (if m1 \<noteq> [] then Some (parseInt m1) else None);
                     end' = (if m2 \<noteq> [] then Some (parseInt m2) else None)
                 in
                 (case (start, end') of
                    (None, None) \<Rightarrow> unsatisfiable fileSize
                  | (Some s, None) \<Rightarrow>
                      partial_content node fileSize mimeType s (int fileSize - 1)
                  | (None, Some suffix) \<Rightarrow>
                      if suffix = 0 then unsatisfiable fileSize
                      else partial_content node fileSize mimeType
                             (max (int fileSize - suffix) 0) (int fileSize - 1)
                  | (Some s, Some e) \<Rightarrow> partial_content node fileSize mimeType s e)))"

section \<open>The media index: \<open>listMedia\<close> and \<open>getMediaById\<close>\<close>

record env =
  MEDIA_DIR :: string
  mime_types :: "string \<Rightarrow> string option"
  fs :: fsnode






section \<open>The handler of \<open>GET /stream/:id\<close>\<close>

text \<open>
  Steps 1 and 2: the path from the id (an error there is answered with 400), the existence
  check (404) and \<open>stat\<close>; then the Range resolution above. The result is the response and
  the calls made to the file system.
\<close>

definition stream :: "env \<Rightarrow> string \<Rightarrow> string option \<Rightarrow> fs_access list \<times> response" where
  "stream e ident range_header =
     (case fromBase64Url ident of
        Inl err \<Rightarrow> ([], \<lparr>status = 400, headers = [], body = JsonError ID_invalido\<rparr>)
      | Inr fileName \<Rightarrow>
          let absPath = path_join (MEDIA_DIR e) fileName in
          (case fs_lookup (fs e) absPath of
             None \<Rightarrow>
               ([Exists absPath],
                \<lparr>status = 404, headers = [], body = JsonError Archivo_no_encontrado\<rparr>)
           | Some node \<Rightarrow>
               let mimeType = mime_or_default (mime_types e) absPath;
                   r = stream_range node mimeType range_header
               in
               ([Exists absPath, Stat absPath] @ (if status r = 416 then [] else [Open absPath]),
                r)))"

section \<open>The Range resolver as the specification words it\<close>

text \<open>
  The value of a decimal numeral, by position; the three outcomes of the resolver; the
  window of each header shape before the bounds are checked (\<open>None\<close> for the suffix of
  length zero); and the bounds check.
\<close>

fun decimal :: "string \<Rightarrow> int" where
  "decimal [] = 0"
| "decimal (d # ds) = digit_val d * 10 ^ length ds + decimal ds"

datatype resolution = FullFile | Unsatisfiable | ResolvedWindow int int

definition spec_window :: "string \<Rightarrow> string \<Rightarrow> nat \<Rightarrow> (int \<times> int) option" where
  "spec_window ds de S =
     (if ds \<noteq> [] \<and> de \<noteq> [] then Some (decimal ds, decimal de)
      else if de = [] then Some (decimal ds, int S - 1)
      else if decimal de = 0 then None
      else Some (max (int S - decimal de) 0, int S - 1))"

definition spec_resolve :: "string \<Rightarrow> string \<Rightarrow> nat \<Rightarrow> resolution" where
  "spec_resolve ds de S =
     (case spec_window ds de S of
        None \<Rightarrow> Unsatisfiable
      | Some (s, e) \<Rightarrow>
          if s < 0 \<or> e \<ge> int S \<or> s > e then Unsatisfiable else ResolvedWindow s e)"

section \<open>Well-formed text and URL-safe characters\<close>

text \<open>
  The strings of JavaScript that hold text (no unpaired surrogate) are, in this model,
  the byte strings that are well-formed UTF-8 (the table of RFC 3629): file names as
  \<open>readdir\<close> returns them, and every string of printable characters.
\<close>

definition in_range :: "nat \<Rightarrow> nat \<Rightarrow> char \<Rightarrow> bool" where
  "in_range lo hi c = (lo \<le> of_char c \<and> (of_char c :: nat) \<le> hi)"

fun utf8_valid :: "char list \<Rightarrow> bool" where
  "utf8_valid [] = True"
| "utf8_valid (a # rest) =
     (let x = of_char a :: nat in
      if x < 0x80 then utf8_valid rest
      else if 0xC2 \<le> x \<and> x \<le> 0xDF then
        (case rest of
           b # r \<Rightarrow> in_range 0x80 0xBF b \<and> utf8_valid r
         | _ \<Rightarrow> False)
      else if 0xE0 \<le> x \<and> x \<le> 0xEF then
        (case rest of
           b # c # r \<Rightarrow>
             in_range (if x = 0xE0 then 0xA0 else 0x80) (if x = 0xED then 0x9F else 0xBF) b
             \<and> in_range 0x80 0xBF c \<and> utf8_valid r
         | _ \<Rightarrow> False)
      else if 0xF0 \<le> x \<and> x \<le> 0xF4 then
        (case rest of
           b # c # d # r \<Rightarrow>
             in_range (if x = 0xF0 then 0x90 else 0x80) (if x = 0xF4 then 0x8F else 0xBF) b
             \<and> in_range 0x80 0xBF c \<and> in_range 0x80 0xBF d \<and> utf8_valid r
         | _ \<Rightarrow> False)
      else False)"

text \<open>
  The characters that stand for themselves in a URL path segment (the unreserved
  characters of RFC 3986 that base64url uses).
\<close>

definition url_safe :: "char \<Rightarrow> bool" where
  "url_safe c =
     (c \<in> set ''ABCDEFGHIJKLMNOPQRSTUVWXYZabcdefghijklmnopqrstuvwxyz0123456789-_'')"

section \<open>Containment in the media root\<close>





section \<open>Well-formed directory trees\<close>





section \<open>An example media root\<close>

definition example_fs :: fsnode where
  "example_fs =
     Dir 4096 True True
       [(''srv'', Dir 4096 True True
          [(''media'', Dir 4096 True True
             [(''a.mp4'', File ''0123456789''),
              (''sub'', Dir 4096 True True [(''b.mkv'', File ''xyz'')]),
              (''notes.txt'', File ''hi''),
              (''locked'', Dir 4096 False True [(''c.mp4'', File ''cc'')])]),
           (''a.mp4'', File ''SECRET'')])]"

definition example_env :: env where
  "example_env =
     \<lparr>MEDIA_DIR = ''/srv/media'',
      mime_types = map_of [(''mp4'', ''video/mp4''), (''mkv'', ''video/x-matroska'')],
      fs = example_fs\<rparr>"

section \<open>Lemmas about the Range header and the responses\<close>

lemma foldl_decimal:
  "foldl (\<lambda>a c. 10 * a + digit_val c) a ds = a * 10 ^ length ds + decimal ds"
  by (induction ds arbitrary: a) (simp_all add: algebra_simps)

lemma parseInt_decimal: "parseInt ds = decimal ds"
  by (simp add: parseInt_def foldl_decimal)

lemma is_digit_minus: "\<not> is_digit CHR ''-''"
  by (simp add: is_digit_def)

lemma match_here_grammar:
  assumes "\<forall>c\<in>set ds. is_digit c"
  shows "match_here (''bytes='' @ ds @ CHR ''-'' # rest) = Some (ds, takeWhile is_digit rest)"
proof -
  have d: "dropWhile is_digit (ds @ CHR ''-'' # rest) = CHR ''-'' # rest"
    using assms by (simp add: dropWhile_append3 is_digit_minus)
  have t: "takeWhile is_digit (ds @ CHR ''-'' # rest) = ds"
    using assms by (simp add: takeWhile_tail is_digit_minus)
  show ?thesis
    by (simp add: match_here_def d t)
qed

lemma range_match_grammar:
  assumes "\<forall>c\<in>set ds. is_digit c" and "\<forall>c\<in>set de. is_digit c"
  shows "range_match (''bytes='' @ ds @ CHR ''-'' # de) = Some (ds, de)"
proof -
  have "match_here (''bytes='' @ ds @ CHR ''-'' # de) = Some (ds, takeWhile is_digit de)"
    using assms(1) by (rule match_here_grammar)
  moreover have "takeWhile is_digit de = de"
    using assms(2) by simp
  ultimately have m: "match_here (''bytes='' @ ds @ CHR ''-'' # de) = Some (ds, de)"
    by simp
  have "range_match (CHR ''b'' # (''ytes='' @ ds @ CHR ''-'' # de)) = Some (ds, de)"
    using m by (simp only: range_match.simps) simp
  then show ?thesis by simp
qed

lemma digit_val_nonneg: "is_digit c \<Longrightarrow> 0 \<le> digit_val c"
  unfolding is_digit_def digit_val_def by auto

lemma decimal_nonneg: "\<forall>c\<in>set xs. is_digit c \<Longrightarrow> 0 \<le> decimal xs"
  by (induction xs) (simp_all add: digit_val_nonneg)

lemma stream_range_grammar:
  assumes ds: "\<forall>c\<in>set ds. is_digit c" and de: "\<forall>c\<in>set de. is_digit c"
  shows "stream_range node mimeType (Some (''bytes='' @ ds @ ''-'' @ de)) =
     (let fileSize = stat_size (stat_of node) in
      if ds = [] \<and> de = [] then unsatisfiable fileSize
      else if de = [] then partial_content node fileSize mimeType (decimal ds) (int fileSize - 1)
      else if ds = [] then
        (if decimal de = 0 then unsatisfiable fileSize
         else partial_content node fileSize mimeType
                (max (int fileSize - decimal de) 0) (int fileSize - 1))
      else partial_content node fileSize mimeType (decimal ds) (decimal de))"
proof -
  have m: "range_match (''bytes='' @ ds @ ''-'' @ de) = Some (ds, de)"
    using range_match_grammar [OF ds de] by simp
  have nonempty: "(''bytes='' @ ds @ ''-'' @ de = []) = False" by simp
  show ?thesis
    unfolding stream_range_def Let_def
    by (simp only: m nonempty option.case prod.case if_False parseInt_decimal)
       (cases "ds = []"; cases "de = []"; simp)
qed

lemma fromBase64Url_total:
  "fromBase64Url b64 =
     Inr (utf8_toString (base64_decode
       (replace_all CHR ''_'' CHR ''/'' (replace_all CHR ''-'' CHR ''+'' b64)
        @ (if js_length b64 mod 4 = 0 then [] else replicate (4 - js_length b64 mod 4) CHR ''=''))))"
proof (cases "js_length b64 mod 4 = 0")
  case True
  then show ?thesis by (simp add: fromBase64Url_def)
next
  case False
  have "js_length b64 mod 4 < 4" by simp
  then have nonneg: "\<not> 4 - int (js_length b64 mod 4) < 0" by linarith
  have n: "nat (4 - int (js_length b64 mod 4)) = 4 - js_length b64 mod 4" by linarith
  have c: "concat (replicate k ''='') = replicate k CHR ''=''" for k
    by (induction k) simp_all
  show ?thesis
    using False by (simp add: fromBase64Url_def js_repeat_def nonneg n c)
qed

lemma stream_found:
  assumes "fromBase64Url ident = Inr fileName"
    and "fs_lookup (fs e) (path_join (MEDIA_DIR e) fileName) = Some node"
  shows "snd (stream e ident hdr) =
           stream_range node (mime_or_default (mime_types e) (path_join (MEDIA_DIR e) fileName)) hdr"
  using assms by (simp add: stream_def Let_def)


lemma show_int_nat: "show_int (int n) = show_nat n"
  by (simp add: show_int_def)



lemma ex_decode: "fromBase64Url ''YS5tcDQ'' = Inr ''a.mp4''"
  by code_simp

lemma ex_lookup: "fs_lookup (fs example_env) (path_join (MEDIA_DIR example_env) ''a.mp4'') = Some (File ''0123456789'')"
  by code_simp



section \<open>Lemmas about the identifier codec\<close>

lemma utf8_lead_2: "0xC2 \<le> x \<Longrightarrow> x \<le> 0xDF \<Longrightarrow> utf8_lead x = Some (1, 0x80, 0xBF)"
  by (simp add: utf8_lead_def)

lemma utf8_lead_3:
  "0xE0 \<le> x \<Longrightarrow> x \<le> 0xEF \<Longrightarrow>
   utf8_lead x = Some (2, if x = 0xE0 then 0xA0 else 0x80, if x = 0xED then 0x9F else 0xBF)"
  by (simp add: utf8_lead_def)

lemma utf8_lead_4:
  "0xF0 \<le> x \<Longrightarrow> x \<le> 0xF4 \<Longrightarrow>
   utf8_lead x = Some (3, if x = 0xF0 then 0x90 else 0x80, if x = 0xF4 then 0x8F else 0xBF)"
  by (auto simp add: utf8_lead_def)

lemma utf8_decode_ascii:
  "(of_char b :: nat) < 0x80 \<Longrightarrow>
   utf8_decode 0 lo hi seen (b # bs) = b # utf8_decode 0 0x80 0xBF [] bs"
  by simp

lemma utf8_decode_lead:
  "\<not> (of_char b :: nat) < 0x80 \<Longrightarrow> utf8_lead (of_char b) = Some (k, l, h) \<Longrightarrow>
   utf8_decode 0 lo hi seen (b # bs) = utf8_decode k l h [b] bs"
  by simp

lemma utf8_decode_last:
  "in_range lo hi b \<Longrightarrow>
   utf8_decode (Suc 0) lo hi seen (b # bs) = seen @ b # utf8_decode 0 0x80 0xBF [] bs"
  by (simp add: in_range_def)

lemma utf8_decode_more:
  "in_range lo hi b \<Longrightarrow>
   utf8_decode (Suc (Suc n)) lo hi seen (b # bs) = utf8_decode (Suc n) 0x80 0xBF (seen @ [b]) bs"
  by (simp add: in_range_def)

lemma utf8_decode_valid: "utf8_valid p \<Longrightarrow> utf8_decode 0 0x80 0xBF [] p = p"
proof (induction p rule: utf8_valid.induct)
  case 1
  then show ?case by simp
next
  case (2 a rest)
  define x :: nat where "x = of_char a"
  consider (one) "x < 0x80"
    | (two) "\<not> x < 0x80" "0xC2 \<le> x \<and> x \<le> 0xDF"
    | (three) "\<not> x < 0x80" "\<not> (0xC2 \<le> x \<and> x \<le> 0xDF)" "0xE0 \<le> x \<and> x \<le> 0xEF"
    | (four) "\<not> x < 0x80" "\<not> (0xC2 \<le> x \<and> x \<le> 0xDF)" "\<not> (0xE0 \<le> x \<and> x \<le> 0xEF)"
        "0xF0 \<le> x \<and> x \<le> 0xF4"
    | (bad) "\<not> x < 0x80" "\<not> (0xC2 \<le> x \<and> x \<le> 0xDF)" "\<not> (0xE0 \<le> x \<and> x \<le> 0xEF)"
        "\<not> (0xF0 \<le> x \<and> x \<le> 0xF4)"
    by blast
  then show ?case
  proof cases
    case one
    with "2.prems" have "utf8_valid rest" by (simp add: x_def)
    with "2.IH"(1) [OF x_def one] have "utf8_decode 0 0x80 0xBF [] rest = rest" by simp
    with one show ?thesis
      using utf8_decode_ascii [of a] by (simp only: x_def)
  next
    case two
    with "2.prems" obtain b r where rest: "rest = b # r" and b: "in_range 0x80 0xBF b"
      and v: "utf8_valid r"
      by (auto simp: x_def Let_def split: list.splits)
    have ih: "utf8_decode 0 0x80 0xBF [] r = r"
      using "2.IH"(2) [OF x_def two rest] v .
    have l: "utf8_lead (of_char a) = Some (1, 0x80, 0xBF)"
      using two utf8_lead_2 [of x] by (simp add: x_def)
    have "utf8_decode 0 0x80 0xBF [] (a # b # r) = utf8_decode 1 0x80 0xBF [a] (b # r)"
      using two(1) by (intro utf8_decode_lead l) (simp add: x_def)
    also have "\<dots> = [a] @ b # utf8_decode 0 0x80 0xBF [] r"
      using utf8_decode_last [OF b] by simp
    finally show ?thesis by (simp add: rest ih)
  next
    case three
    define lo :: nat where "lo = (if x = 0xE0 then 0xA0 else 0x80)"
    define hi :: nat where "hi = (if x = 0xED then 0x9F else 0xBF)"
    from three "2.prems" obtain b c r where rest: "rest = b # c # r"
      and b: "in_range lo hi b" and c: "in_range 0x80 0xBF c" and v: "utf8_valid r"
      by (auto simp: x_def lo_def hi_def Let_def split: list.splits)
    have ih: "utf8_decode 0 0x80 0xBF [] r = r"
      using "2.IH"(3) [OF x_def three rest refl] v .
    have l: "utf8_lead (of_char a) = Some (2, lo, hi)"
      using three utf8_lead_3 [of x] by (simp add: x_def lo_def hi_def)
    have "utf8_decode 0 0x80 0xBF [] (a # b # c # r) = utf8_decode 2 lo hi [a] (b # c # r)"
      using three(1) by (intro utf8_decode_lead l) (simp add: x_def)
    also have "\<dots> = utf8_decode 1 0x80 0xBF [a, b] (c # r)"
      using utf8_decode_more [OF b, of 0 "[a]"] by (simp add: numeral_2_eq_2)
    also have "\<dots> = [a, b] @ c # utf8_decode 0 0x80 0xBF [] r"
      using utf8_decode_last [OF c] by simp
    finally show ?thesis by (simp add: rest ih)
  next
    case four
    define lo :: nat where "lo = (if x = 0xF0 then 0x90 else 0x80)"
    define hi :: nat where "hi = (if x = 0xF4 then 0x8F else 0xBF)"
    from four "2.prems" obtain b c d r where rest: "rest = b # c # d # r"
      and b: "in_range lo hi b" and c: "in_range 0x80 0xBF c" and d: "in_range 0x80 0xBF d"
      and v: "utf8_valid r"
      by (auto simp: x_def lo_def hi_def Let_def split: list.splits)
    have ih: "utf8_decode 0 0x80 0xBF [] r = r"
      using "2.IH"(4) [OF x_def four rest refl refl] v .
    have l: "utf8_lead (of_char a) = Some (3, lo, hi)"
      using four utf8_lead_4 [of x] by (simp add: x_def lo_def hi_def)
    have "utf8_decode 0 0x80 0xBF [] (a # b # c # d # r) = utf8_decode 3 lo hi [a] (b # c # d # r)"
      using four(1) by (intro utf8_decode_lead l) (simp add: x_def)
    also have "\<dots> = utf8_decode 2 0x80 0xBF [a, b] (c # d # r)"
      using utf8_decode_more [OF b, of 1 "[a]"] by (simp add: numeral_3_eq_3)
    also have "\<dots> = utf8_decode 1 0x80 0xBF [a, b, c] (d # r)"
      using utf8_decode_more [OF c, of 0 "[a, b]"] by (simp add: numeral_2_eq_2)
    also have "\<dots> = [a, b, c] @ d # utf8_decode 0 0x80 0xBF [] r"
      using utf8_decode_last [OF d] by simp
    finally show ?thesis by (simp add: rest ih)
  next
    case bad
    have "\<not> utf8_valid (a # rest)"
      unfolding utf8_valid.simps Let_def x_def [symmetric] by (simp add: bad)
    with "2.prems" show ?thesis by blast
  qed
qed

lemma utf8_toString_valid: "utf8_valid p \<Longrightarrow> utf8_toString p = p"
  by (simp add: utf8_toString_def utf8_decode_valid)

lemma b64_chars_all:
  "list_all (\<lambda>n. url_char n \<noteq> CHR ''='' \<and> url_safe (url_char n) \<and> b64_char n \<noteq> CHR ''=''
      \<and> (\<lambda>x. if x = CHR ''_'' then CHR ''/'' else x)
            ((\<lambda>x. if x = CHR ''-'' then CHR ''+'' else x) (url_char n)) = b64_char n
      \<and> unbase64 (b64_char n) = Some n) [0..<64]"
  by code_simp

lemma b64_char_props:
  assumes "n < 64"
  shows "url_char n \<noteq> CHR ''=''" and "url_safe (url_char n)" and "b64_char n \<noteq> CHR ''=''"
    and "(\<lambda>x. if x = CHR ''_'' then CHR ''/'' else x)
            ((\<lambda>x. if x = CHR ''-'' then CHR ''+'' else x) (url_char n)) = b64_char n"
    and "unbase64 (b64_char n) = Some n"
proof -
  have "n \<in> set [0..<64]" using assms by simp
  with b64_chars_all show "url_char n \<noteq> CHR ''=''" and "url_safe (url_char n)"
    and "b64_char n \<noteq> CHR ''=''"
    and "(\<lambda>x. if x = CHR ''_'' then CHR ''/'' else x)
            ((\<lambda>x. if x = CHR ''-'' then CHR ''+'' else x) (url_char n)) = b64_char n"
    and "unbase64 (b64_char n) = Some n"
    unfolding list_all_iff by blast+
qed

lemma strip_padding_append:
  assumes "xs \<noteq> []" and "last xs \<noteq> CHR ''=''"
  shows "strip_padding (xs @ ys) = xs @ strip_padding ys"
proof -
  have "dropWhile (\<lambda>c. c = CHR ''='') (rev xs) = rev xs"
    using assms by (cases xs rule: rev_cases) simp_all
  then show ?thesis
    using assms by (simp add: strip_padding_def dropWhile_append)
qed

lemma strip_padding_pad: "strip_padding (replicate k CHR ''='') = []"
  by (simp add: strip_padding_def)

lemma sextet_bounds:
  fixes x y z :: nat
  assumes "x < 256" "y < 256" "z < 256"
  shows "x div 4 < 64" "(x mod 4) * 16 + y div 16 < 64" "(y mod 16) * 4 + z div 64 < 64"
    "z mod 64 < 64" "(x mod 4) * 16 < 64" "(y mod 16) * 4 < 64"
  using assms by auto

lemma sextet_bytes:
  fixes x y z :: nat
  assumes "x < 256" "y < 256" "z < 256"
  shows "(x div 4) * 4 + ((x mod 4) * 16 + y div 16) div 16 = x"
    "(((x mod 4) * 16 + y div 16) mod 16) * 16 + ((y mod 16) * 4 + z div 64) div 4 = y"
    "(((y mod 16) * 4 + z div 64) mod 4) * 64 + z mod 64 = z"
    "(x div 4) * 4 + ((x mod 4) * 16) div 16 = x"
    "(((x mod 4) * 16 + y div 16) mod 16) * 16 + ((y mod 16) * 4) div 4 = y"
proof -
  have a: "((x mod 4) * 16 + y div 16) div 16 = x mod 4"
    using assms by (simp add: div_mult_self1_is_m)
  have b: "((x mod 4) * 16 + y div 16) mod 16 = y div 16"
    using assms by simp
  have c: "((y mod 16) * 4 + z div 64) div 4 = y mod 16"
    using assms by simp
  have d: "((y mod 16) * 4 + z div 64) mod 4 = z div 64"
    using assms by simp
  show "(x div 4) * 4 + ((x mod 4) * 16 + y div 16) div 16 = x" unfolding a by simp
  show "(((x mod 4) * 16 + y div 16) mod 16) * 16 + ((y mod 16) * 4 + z div 64) div 4 = y"
    unfolding b c by simp
  show "(((y mod 16) * 4 + z div 64) mod 4) * 64 + z mod 64 = z" unfolding d by simp
  show "(x div 4) * 4 + ((x mod 4) * 16) div 16 = x" by simp
  show "(((x mod 4) * 16 + y div 16) mod 16) * 16 + ((y mod 16) * 4) div 4 = y"
    unfolding b by simp
qed

lemma toBase64Url_Nil: "toBase64Url [] = []"
  by (simp add: toBase64Url_def replace_all_def strip_padding_def)

lemma url_map:
  "replace_all CHR ''/'' CHR ''_'' (replace_all CHR ''+'' CHR ''-'' (map b64_char ns @ s)) =
   map url_char ns @ replace_all CHR ''/'' CHR ''_'' (replace_all CHR ''+'' CHR ''-'' s)"
  by (simp add: replace_all_def url_char_def)

lemma url_pad:
  "replace_all CHR ''/'' CHR ''_'' (replace_all CHR ''+'' CHR ''-'' (replicate k CHR ''='')) =
   replicate k CHR ''=''"
  by (simp add: replace_all_def)

lemma toBase64Url_group:
  assumes "ns \<noteq> []" and "last ns < 64"
  shows "strip_padding (replace_all CHR ''/'' CHR ''_'' (replace_all CHR ''+'' CHR ''-''
           (map b64_char ns @ s))) =
         map url_char ns @ strip_padding (replace_all CHR ''/'' CHR ''_''
           (replace_all CHR ''+'' CHR ''-'' s))"
proof -
  have "last (map url_char ns) \<noteq> CHR ''=''"
    using assms b64_char_props(1) by (simp add: last_map)
  then show ?thesis
    using assms(1) by (simp add: url_map strip_padding_append)
qed

lemma toBase64Url_1:
  "toBase64Url [a] = [url_char (of_char a div 4), url_char ((of_char a mod 4) * 16)]"
proof -
  have e: "base64_encode [a] =
      map b64_char [of_char a div 4, (of_char a mod 4) * 16] @ replicate 2 CHR ''=''"
    by (simp add: numeral_2_eq_2 Let_def)
  have b: "(of_char a mod 4) * 16 < (64 :: nat)" by simp
  show ?thesis
    unfolding toBase64Url_def e
    using toBase64Url_group [of "[of_char a div 4, (of_char a mod 4) * 16]" "replicate 2 CHR ''=''"] b
    by (simp only: url_pad strip_padding_pad) simp
qed

lemma toBase64Url_2:
  "toBase64Url [a, b] =
     [url_char (of_char a div 4), url_char ((of_char a mod 4) * 16 + of_char b div 16),
      url_char ((of_char b mod 16) * 4)]"
proof -
  have e: "base64_encode [a, b] =
      map b64_char [of_char a div 4, (of_char a mod 4) * 16 + of_char b div 16,
        (of_char b mod 16) * 4] @ replicate 1 CHR ''=''"
    by (simp add: Let_def)
  have b: "(of_char b mod 16) * 4 < (64 :: nat)" by simp
  show ?thesis
    unfolding toBase64Url_def e
    using toBase64Url_group [of "[of_char a div 4, (of_char a mod 4) * 16 + of_char b div 16,
        (of_char b mod 16) * 4]" "replicate 1 CHR ''=''"] b
    by (simp only: url_pad strip_padding_pad) simp
qed

lemma toBase64Url_3:
  "toBase64Url (a # b # c # rest) =
     [url_char (of_char a div 4), url_char ((of_char a mod 4) * 16 + of_char b div 16),
      url_char ((of_char b mod 16) * 4 + of_char c div 64), url_char (of_char c mod 64)]
     @ toBase64Url rest"
proof -
  have e: "base64_encode (a # b # c # rest) =
      map b64_char [of_char a div 4, (of_char a mod 4) * 16 + of_char b div 16,
        (of_char b mod 16) * 4 + of_char c div 64, of_char c mod 64] @ base64_encode rest"
    by (simp add: Let_def)
  have b: "of_char c mod 64 < (64 :: nat)" by simp
  show ?thesis
    unfolding toBase64Url_def e
    using toBase64Url_group [of "[of_char a div 4, (of_char a mod 4) * 16 + of_char b div 16,
        (of_char b mod 16) * 4 + of_char c div 64, of_char c mod 64]" "base64_encode rest"] b
    by simp
qed

lemma sextets_url_char:
  assumes "n < 64"
  shows "b64_sextets (replace_all CHR ''_'' CHR ''/'' (replace_all CHR ''-'' CHR ''+''
           (url_char n # s))) =
         n # b64_sextets (replace_all CHR ''_'' CHR ''/'' (replace_all CHR ''-'' CHR ''+'' s))"
  using b64_char_props(3,4,5) [OF assms] by (simp add: replace_all_def)

lemma sextets_pad: "b64_sextets (s @ replicate k CHR ''='') = b64_sextets s"
proof (induction s)
  case Nil
  show ?case by (cases k) simp_all
next
  case (Cons c cs)
  then show ?case by (simp split: option.splits)
qed

lemma unurl_pad:
  "replace_all CHR ''_'' CHR ''/'' (replace_all CHR ''-'' CHR ''+'' (s @ replicate k CHR ''=''))
   = replace_all CHR ''_'' CHR ''/'' (replace_all CHR ''-'' CHR ''+'' s) @ replicate k CHR ''=''"
  by (simp add: replace_all_def)

lemma base64url_roundtrip:
  "base64_decode (replace_all CHR ''_'' CHR ''/'' (replace_all CHR ''-'' CHR ''+''
     (toBase64Url bs))) = bs"
proof (induction bs rule: base64_encode.induct)
  case 1
  show ?case by (simp add: toBase64Url_Nil base64_decode_def replace_all_def)
next
  case (2 a)
  have x: "(of_char a :: nat) < 256" by simp
  show ?case
    unfolding toBase64Url_1 base64_decode_def
    using sextet_bounds [OF x x x] sextet_bytes(4) [OF x x x]
    by (simp add: sextets_url_char) (simp add: replace_all_def)
next
  case (3 a b)
  have x: "(of_char a :: nat) < 256" and y: "(of_char b :: nat) < 256" by simp_all
  show ?case
    unfolding toBase64Url_2 base64_decode_def
    using sextet_bounds [OF x y y] sextet_bytes(1,5) [OF x y y]
    by (simp add: sextets_url_char) (simp add: replace_all_def)
next
  case (4 a b c rest)
  have x: "(of_char a :: nat) < 256" and y: "(of_char b :: nat) < 256"
    and z: "(of_char c :: nat) < 256" by simp_all
  show ?case
    using 4 sextet_bounds [OF x y z] sextet_bytes(1,2,3) [OF x y z]
    unfolding toBase64Url_3 base64_decode_def
    by (simp add: sextets_url_char)
qed

lemma fromBase64Url_toBase64Url: "fromBase64Url (toBase64Url p) = Inr (utf8_toString p)"
proof -
  have "base64_decode (replace_all CHR ''_'' CHR ''/'' (replace_all CHR ''-'' CHR ''+''
     (toBase64Url p)) @ replicate k CHR ''='') = p" for k
    using base64url_roundtrip [of p] by (simp add: base64_decode_def sextets_pad)
  from this [of 0] this show ?thesis
    by (simp add: fromBase64Url_total)
qed

lemma toBase64Url_url_safe: "list_all url_safe (toBase64Url p)"
proof (induction p rule: base64_encode.induct)
  case 1
  then show ?case by (simp add: toBase64Url_Nil)
next
  case (2 a)
  have x: "(of_char a :: nat) < 256" by simp
  show ?case
    unfolding toBase64Url_1
    using sextet_bounds [OF x x x] by (simp add: b64_char_props(2))
next
  case (3 a b)
  have x: "(of_char a :: nat) < 256" and y: "(of_char b :: nat) < 256" by simp_all
  show ?case
    unfolding toBase64Url_2
    using sextet_bounds [OF x y y] by (simp add: b64_char_props(2))
next
  case (4 a b c rest)
  have x: "(of_char a :: nat) < 256" and y: "(of_char b :: nat) < 256"
    and z: "(of_char c :: nat) < 256" by simp_all
  from 4 have "list_all url_safe (toBase64Url rest)" by simp
  then show ?case
    unfolding toBase64Url_3
    using sextet_bounds [OF x y z] by (simp add: b64_char_props(2))
qed

lemma ascii_valid: "\<forall>c\<in>set p. (of_char c :: nat) < 0x80 \<Longrightarrow> utf8_valid p"
  by (induction p) simp_all

lemma not_url_safe_pad: "\<not> url_safe CHR ''=''"
  by (simp add: url_safe_def)


section \<open>Lemmas about paths\<close>




















section \<open>Lemmas about the media index\<close>






section \<open>Lemmas about the lookup of catalogue entries\<close>













lemma toLowerCase_Nil: "toLowerCase s = [] \<longleftrightarrow> s = []"
  by (simp add: toLowerCase_def)










section \<open>Lemmas about refused ranges\<close>



section \<open>The claims\<close>

subsection \<open>Claim C1\<close>




subsection \<open>Claim C2\<close>

text \<open>
  Claim C2. For a header \<open>bytes=<start>-<end>\<close>, both parts runs of digits and not both
  empty, and every file size, the handler answers as the resolver of the specification
  decides: the window is \<open>[start, end]\<close>, \<open>[start, S - 1]\<close> or, for a suffix of length
  \<open>n > 0\<close>, \<open>[max (S - n) 0, S - 1]\<close>; it is refused (416) exactly when \<open>start < 0\<close>,
  \<open>end \<ge> S\<close> or \<open>start > end\<close>, and a suffix of length zero is refused; an accepted window
  is answered with 206, its bounds in \<open>Content-Range\<close>, \<open>end - start + 1\<close> as
  \<open>Content-Length\<close> and the stream opened on exactly \<open>start\<close> to \<open>end\<close>. No window is
  accepted on a file of size zero.
\<close>

theorem C2_range_window:
  assumes ds: "\<forall>c\<in>set ds. is_digit c" and de: "\<forall>c\<in>set de. is_digit c"
    and ne: "ds \<noteq> [] \<or> de \<noteq> []"
  shows "(case spec_resolve ds de (stat_size (stat_of node)) of
            FullFile \<Rightarrow> False
          | Unsatisfiable \<Rightarrow>
              status (stream_range node mimeType (Some (''bytes='' @ ds @ ''-'' @ de))) = 416
          | ResolvedWindow s e \<Rightarrow>
              stream_range node mimeType (Some (''bytes='' @ ds @ ''-'' @ de)) =
                \<lparr>status = 206,
                 headers =
                   [(''Content-Range'',
                       ''bytes '' @ show_int s @ ''-'' @ show_int e @ ''/''
                         @ show_nat (stat_size (stat_of node))),
                    (''Accept-Ranges'', ''bytes''),
                    (''Content-Length'', show_int (e - s + 1)),
                    (''Content-Type'', mimeType)],
                 body = createReadStream node (Some (nat s, nat e))\<rparr>)
         \<and> (stat_size (stat_of node) = 0 \<longrightarrow>
              spec_resolve ds de (stat_size (stat_of node)) = Unsatisfiable
              \<and> status (stream_range node mimeType (Some (''bytes='' @ ds @ ''-'' @ de))) = 416)"
proof -
  define S where "S = stat_size (stat_of node)"
  define r where "r = stream_range node mimeType (Some (''bytes='' @ ds @ ''-'' @ de))"
  have r: "r =
     (if ds = [] \<and> de = [] then unsatisfiable S
      else if de = [] then partial_content node S mimeType (decimal ds) (int S - 1)
      else if ds = [] then
        (if decimal de = 0 then unsatisfiable S
         else partial_content node S mimeType (max (int S - decimal de) 0) (int S - 1))
      else partial_content node S mimeType (decimal ds) (decimal de))"
    unfolding r_def S_def using stream_range_grammar [OF ds de, of node mimeType]
    by (simp only: Let_def)
  have nn: "0 \<le> decimal ds" "0 \<le> decimal de"
    using decimal_nonneg ds de by blast+
  have "(case spec_resolve ds de S of
            FullFile \<Rightarrow> False
          | Unsatisfiable \<Rightarrow> status r = 416
          | ResolvedWindow s e \<Rightarrow>
              r = \<lparr>status = 206,
                 headers =
                   [(''Content-Range'',
                       ''bytes '' @ show_int s @ ''-'' @ show_int e @ ''/'' @ show_nat S),
                    (''Accept-Ranges'', ''bytes''),
                    (''Content-Length'', show_int (e - s + 1)),
                    (''Content-Type'', mimeType)],
                 body = createReadStream node (Some (nat s, nat e))\<rparr>)
         \<and> (S = 0 \<longrightarrow> spec_resolve ds de S = Unsatisfiable \<and> status r = 416)"
  proof (cases "ds = []")
    case True
    then have "de \<noteq> []" using ne by simp
    with True nn show ?thesis
      by (auto simp add: r spec_resolve_def spec_window_def partial_content_def
          unsatisfiable_def Let_def max_def)
  next
    case False
    with nn show ?thesis
      by (cases "de = []")
         (auto simp add: r spec_resolve_def spec_window_def partial_content_def
            unsatisfiable_def Let_def max_def)
  qed
  then show ?thesis unfolding r_def S_def .
qed

theorem C2_range_window_witness:
  "spec_resolve ''2'' ''5'' (stat_size (stat_of (File ''0123456789''))) = ResolvedWindow 2 5
   \<and> stream_range (File ''0123456789'') ''video/mp4'' (Some ''bytes=2-5'') =
       \<lparr>status = 206,
        headers =
          [(''Content-Range'', ''bytes 2-5/10''), (''Accept-Ranges'', ''bytes''),
           (''Content-Length'', ''4''), (''Content-Type'', ''video/mp4'')],
        body = Bytes ''2345''\<rparr>
   \<and> spec_resolve [] ''5'' (stat_size (stat_of (File []))) = Unsatisfiable
   \<and> status (stream_range (File []) ''video/mp4'' (Some ''bytes=-5'')) = 416"
proof -
  have d2: "\<forall>c\<in>set ''2''. is_digit c" and d5: "\<forall>c\<in>set ''5''. is_digit c"
    and d0: "\<forall>c\<in>set ''''. is_digit c"
    by (simp_all add: is_digit_def)
  have r: "spec_resolve ''2'' ''5'' (stat_size (stat_of (File ''0123456789''))) = ResolvedWindow 2 5"
    by code_simp
  have z: "stat_size (stat_of (File [])) = 0" by simp
  have a: "stream_range (File ''0123456789'') ''video/mp4'' (Some (''bytes='' @ ''2'' @ ''-'' @ ''5'')) =
      \<lparr>status = 206,
        headers =
          [(''Content-Range'', ''bytes '' @ show_int 2 @ ''-'' @ show_int 5 @ ''/'' @
             show_nat (stat_size (stat_of (File ''0123456789'')))), (''Accept-Ranges'', ''bytes''),
           (''Content-Length'', show_int (5 - 2 + 1)), (''Content-Type'', ''video/mp4'')],
        body = createReadStream (File ''0123456789'') (Some (nat 2, nat 5))\<rparr>"
    using C2_range_window [OF d2 d5, of "File ''0123456789''" "''video/mp4''"] unfolding r by simp
  have e1: "''bytes '' @ show_int 2 @ ''-'' @ show_int 5 @ ''/'' @
             show_nat (stat_size (stat_of (File ''0123456789''))) = ''bytes 2-5/10''"
    by code_simp
  have e2: "show_int (5 - 2 + 1) = ''4''" by code_simp
  have e3: "createReadStream (File ''0123456789'') (Some (nat 2, nat 5)) = Bytes ''2345''"
    by code_simp
  have e4: "''bytes='' @ ''2'' @ ''-'' @ ''5'' = ''bytes=2-5''" by simp
  have b: "spec_resolve [] ''5'' (stat_size (stat_of (File []))) = Unsatisfiable"
    "status (stream_range (File []) ''video/mp4'' (Some ''bytes=-5'')) = 416"
    using C2_range_window [OF d0 d5, of "File []" "''video/mp4''"] z by simp_all
  show ?thesis
    using r a b unfolding e1 e2 e3 e4 by blast
qed

subsection \<open>Claim C3\<close>

text \<open>
  Claim C3, at the inputs where the handler departs from it. The header \<open>bytes=abc\<close> is
  refused with 416. But the regular expression is not anchored: a header with two ranges
  is answered with the first one, and a header with text before \<open>bytes=\<close> and after the
  range is accepted, both with status 206.
\<close>

theorem C3_unanchored_match:
  "snd (stream example_env ''YS5tcDQ'' (Some ''bytes=0-1,4-5'')) =
     \<lparr>status = 206,
      headers =
        [(''Content-Range'', ''bytes 0-1/10''), (''Accept-Ranges'', ''bytes''),
         (''Content-Length'', ''2''), (''Content-Type'', ''video/mp4'')],
      body = Bytes ''01''\<rparr>
   \<and> status (snd (stream example_env ''YS5tcDQ'' (Some ''items=3;xbytes=7-junk''))) = 206
   \<and> status (snd (stream example_env ''YS5tcDQ'' (Some ''bytes=abc''))) = 416"
  by code_simp

subsection \<open>Claim C4\<close>

text \<open>
  Claim C4. Decoding the token of a path gives the path back, for every path that is
  well-formed text, and so for every path of ASCII characters; two paths with the same
  token are equal; and a token holds only letters, digits, \<open>-\<close> and \<open>_\<close>, so no padding
  \<open>=\<close> and no character that a URL path would have to escape. (\<open>toBase64Url\<close> is a
  function: the same path always gives the same token.)
\<close>

theorem C4_codec_roundtrip:
  "(utf8_valid p \<longrightarrow> fromBase64Url (toBase64Url p) = Inr p)
   \<and> ((\<forall>c\<in>set p. (of_char c :: nat) < 0x80) \<longrightarrow> fromBase64Url (toBase64Url p) = Inr p)
   \<and> (toBase64Url p = toBase64Url q \<longrightarrow> p = q)
   \<and> (\<forall>c\<in>set (toBase64Url p). url_safe c \<and> c \<noteq> CHR ''='')"
proof (intro conjI impI ballI)
  assume "utf8_valid p"
  then show "fromBase64Url (toBase64Url p) = Inr p"
    by (simp add: fromBase64Url_toBase64Url utf8_toString_valid)
next
  assume "\<forall>c\<in>set p. (of_char c :: nat) < 0x80"
  then have "utf8_valid p" by (rule ascii_valid)
  then show "fromBase64Url (toBase64Url p) = Inr p"
    by (simp add: fromBase64Url_toBase64Url utf8_toString_valid)
next
  assume "toBase64Url p = toBase64Url q"
  then show "p = q"
    using base64url_roundtrip [of p] base64url_roundtrip [of q] by metis
next
  fix c assume "c \<in> set (toBase64Url p)"
  then show "url_safe c"
    using toBase64Url_url_safe [of p] by (simp add: list_all_iff)
  then show "c \<noteq> CHR ''=''"
    using not_url_safe_pad by blast
qed

theorem C4_codec_roundtrip_witness:
  "toBase64Url ''sub/b.mkv'' = ''c3ViL2IubWt2''
   \<and> fromBase64Url (toBase64Url ''sub/b.mkv'') = Inr ''sub/b.mkv''
   \<and> url_safe (hd (toBase64Url ''sub/b.mkv''))
   \<and> toBase64Url [CHR 0xC3, CHR 0xA9, CHR ''?'', CHR ''>''] = ''w6k_Pg''
   \<and> fromBase64Url (toBase64Url [CHR 0xC3, CHR 0xA9, CHR ''?'', CHR ''>''])
       = Inr [CHR 0xC3, CHR 0xA9, CHR ''?'', CHR ''>'']"
proof -
  have v: "utf8_valid ''sub/b.mkv''" by code_simp
  have t: "toBase64Url ''sub/b.mkv'' = ''c3ViL2IubWt2''" by code_simp
  have v': "utf8_valid [CHR 0xC3, CHR 0xA9, CHR ''?'', CHR ''>'']" by code_simp
  have t': "toBase64Url [CHR 0xC3, CHR 0xA9, CHR ''?'', CHR ''>''] = ''w6k_Pg''" by code_simp
  have "hd (toBase64Url ''sub/b.mkv'') \<in> set (toBase64Url ''sub/b.mkv'')"
    unfolding t by simp
  then show ?thesis
    using C4_codec_roundtrip [of "''sub/b.mkv''" "''sub/b.mkv''"]
      C4_codec_roundtrip [of "[CHR 0xC3, CHR 0xA9, CHR ''?'', CHR ''>'']" "[]"] v t v' t'
    by blast
qed

subsection \<open>Claim C5\<close>



subsection \<open>Claim C6\<close>

text \<open>
  Claim C6. A request without a Range header, for an id that names a regular file, is
  answered with status 200, the headers \<open>Content-Type\<close>, \<open>Content-Length\<close> (the size of the
  file) and \<open>Accept-Ranges: bytes\<close>, and all the bytes of the file, whatever its size.
\<close>

theorem C6_full_file:
  assumes "fromBase64Url ident = Inr fileName"
    and "fs_lookup (fs e) (path_join (MEDIA_DIR e) fileName) = Some (File bytes)"
  shows "snd (stream e ident None) =
           \<lparr>status = 200,
            headers =
              [(''Content-Type'',
                  mime_or_default (mime_types e) (path_join (MEDIA_DIR e) fileName)),
               (''Content-Length'', show_nat (length bytes)),
               (''Accept-Ranges'', ''bytes'')],
            body = Bytes bytes\<rparr>"
  by (simp add: stream_found [OF assms] stream_range_def)

theorem C6_full_file_witness:
  "snd (stream example_env ''YS5tcDQ'' None) =
     \<lparr>status = 200,
      headers =
        [(''Content-Type'', ''video/mp4''), (''Content-Length'', ''10''),
         (''Accept-Ranges'', ''bytes'')],
      body = Bytes ''0123456789''\<rparr>"
proof -
  have m: "mime_or_default (mime_types example_env) (path_join (MEDIA_DIR example_env) ''a.mp4'') = ''video/mp4''"
    by code_simp
  have l: "show_nat (length ''0123456789'') = ''10''" by code_simp
  show ?thesis
    using C6_full_file [OF ex_decode ex_lookup] by (simp only: m l)
qed

subsection \<open>Claim C7\<close>



subsection \<open>Claim C8\<close>



subsection \<open>Claim C9\<close>




subsection \<open>Claim C10\<close>




end
